theory Spec2Isabelle
  imports Main "HOL-Library.Word"
begin

section \<open>The filesystem the module runs on\<close>

text \<open>
  \<^verbatim>\<open>ds_toolkit/common/files.py\<close> is a layer of wrappers over \<^verbatim>\<open>os\<close>, \<^verbatim>\<open>os.path\<close>,
  \<^verbatim>\<open>shutil\<close> and \<^verbatim>\<open>open\<close>. The module calls \<^verbatim>\<open>os.mknod\<close> and appends the literal
  \<^verbatim>\<open>'/'\<close>, so the platform is POSIX. The filesystem is a tree: a directory is an
  association list of entries in the order the OS reports them, a regular file holds
  its bytes, and \<open>Special\<close> stands for an entry that is neither a regular file nor a
  directory (a Unix-domain socket: \<^verbatim>\<open>os.path.isfile\<close> and \<^verbatim>\<open>os.path.isdir\<close> are both
  False for it, \<^verbatim>\<open>os.path.exists\<close> is True, and \<^verbatim>\<open>open\<close> fails with ENXIO).
  Symbolic links, permissions, other processes and full disks are outside the model.
\<close>

type_synonym byte = "8 word"
type_synonym bytes = "byte list"

text \<open>A Python \<^verbatim>\<open>str\<close> holding file content is a list of Unicode code points.\<close>

type_synonym unicode = "nat list"

datatype node = File bytes | Special | Dir "(string \<times> node) list"

datatype encoding = UTF8 | ASCII | LATIN1

record world =
  root :: node
  cwd :: "string list"
  locale_encoding :: encoding
  log :: "string list"

datatype errno = EEXIST | ENOENT | ENOTDIR | EISDIR | ENOTEMPTY | EINVAL | ENXIO

text \<open>
  \<open>Raised_FileExistsError msg\<close> is \<^verbatim>\<open>raise FileExistsError(msg)\<close> executed by the module
  itself; \<open>OSError e\<close> is an exception raised by an OS call, whose Python class follows
  from the errno (EEXIST gives \<^verbatim>\<open>FileExistsError\<close>, ENOENT \<^verbatim>\<open>FileNotFoundError\<close>, ...).
  \<open>Unmodelled\<close> marks the one library path that is not modelled (the copy-tree fallback
  of \<^verbatim>\<open>shutil.move\<close> for a directory source).
\<close>

datatype error =
    Raised_FileExistsError string
  | OSError errno
  | ShutilError
  | UnicodeEncodeError
  | UnicodeDecodeError
  | MagicException string
  | Unmodelled

fun is_FileExistsError :: "error \<Rightarrow> bool" where
  "is_FileExistsError (Raised_FileExistsError m) = True"
| "is_FileExistsError (OSError e) = (e = EEXIST)"
| "is_FileExistsError _ = False"

fun is_Dir :: "node \<Rightarrow> bool" where
  "is_Dir (Dir es) = True"
| "is_Dir _ = False"

fun is_File :: "node \<Rightarrow> bool" where
  "is_File (File b) = True"
| "is_File _ = False"

subsection \<open>Looking up and updating the tree\<close>

fun lookup :: "node \<Rightarrow> string list \<Rightarrow> node option" where
  "lookup n [] = Some n"
| "lookup (Dir es) (c # cs) = (case map_of es c of None \<Rightarrow> None | Some n \<Rightarrow> lookup n cs)"
| "lookup n (c # cs) = None"

definition is_dir_at :: "node \<Rightarrow> string list \<Rightarrow> bool" where
  "is_dir_at r ap = (case lookup r ap of Some (Dir es) \<Rightarrow> True | _ \<Rightarrow> False)"

text \<open>
  \<open>set_entry es n v\<close> binds the name \<open>n\<close> of a directory to \<open>v\<close>: \<open>None\<close> unlinks it, an
  existing entry keeps its position, a new entry goes to the end of the listing.
\<close>

definition set_entry :: "(string \<times> node) list \<Rightarrow> string \<Rightarrow> node option \<Rightarrow> (string \<times> node) list" where
  "set_entry es n v =
     (case v of
        None \<Rightarrow> filter (\<lambda>e. fst e \<noteq> n) es
      | Some c \<Rightarrow> if n \<in> fst ` set es then map (\<lambda>e. if fst e = n then (n, c) else e) es
                  else es @ [(n, c)])"

fun update_at :: "node \<Rightarrow> string list \<Rightarrow> node option \<Rightarrow> node" where
  "update_at (Dir es) [c] v = Dir (set_entry es c v)"
| "update_at (Dir es) (c # d # cs) v =
     Dir (map (\<lambda>e. if fst e = c then (c, update_at (snd e) (d # cs) v) else e) es)"
| "update_at n cs v = n"

subsection \<open>Path strings: \<^verbatim>\<open>posixpath.join\<close>, \<^verbatim>\<open>posixpath.split\<close>, resolution\<close>

definition sep :: char where
  "sep = CHR ''/''"

text \<open>\<^verbatim>\<open>os.path.join(a, b)\<close>: an absolute \<open>b\<close> or an empty \<open>a\<close> gives \<open>b\<close>.\<close>

definition join :: "string \<Rightarrow> string \<Rightarrow> string" where
  "join a b =
     (if (b \<noteq> [] \<and> hd b = sep) \<or> a = [] then b
      else if last a = sep then a @ b
      else a @ [sep] @ b)"

text \<open>\<^verbatim>\<open>p.rstrip('/')\<close>.\<close>

definition rstrip_sep :: "string \<Rightarrow> string" where
  "rstrip_sep p = rev (dropWhile (\<lambda>c. c = sep) (rev p))"

text \<open>
  \<^verbatim>\<open>os.path.split(p)\<close>: the tail is everything after the last slash; the head is what
  comes before, without its trailing slashes unless it consists of slashes only.
\<close>

definition basename :: "string \<Rightarrow> string" where
  "basename p = rev (takeWhile (\<lambda>c. c \<noteq> sep) (rev p))"

definition split :: "string \<Rightarrow> string \<times> string" where
  "split p =
     (let tail = basename p;
          head = take (length p - length tail) p
      in (if head \<noteq> [] \<and> \<not> (\<forall>c \<in> set head. c = sep) then rstrip_sep head else head, tail))"

text \<open>\<^verbatim>\<open>p.split('/')\<close>: the components between the slashes, empty ones included.\<close>

fun split_sep :: "string \<Rightarrow> string list" where
  "split_sep [] = [[]]"
| "split_sep (c # cs) =
     (if c = sep then [] # split_sep cs
      else (c # hd (split_sep cs)) # tl (split_sep cs))"

text \<open>
  Path resolution walks the components from the start directory. Every component,
  also an empty one or \<^verbatim>\<open>.\<close>, is looked up in a directory: the position reached
  so far must be one (ENOENT when it is missing, ENOTDIR when it is not a directory).
  The result is the absolute position as a list of names; its last name need not exist.
\<close>

fun walk_comps :: "node \<Rightarrow> string list \<Rightarrow> string list \<Rightarrow> errno + string list" where
  "walk_comps r cur [] = Inr cur"
| "walk_comps r cur (c # cs) =
     (case lookup r cur of
        None \<Rightarrow> Inl ENOENT
      | Some (Dir es) \<Rightarrow>
          if c = [] \<or> c = ''.'' then walk_comps r cur cs
          else if c = ''..'' then walk_comps r (butlast cur) cs
          else walk_comps r (cur @ [c]) cs
      | Some _ \<Rightarrow> Inl ENOTDIR)"

definition resolve :: "world \<Rightarrow> string \<Rightarrow> errno + string list" where
  "resolve s p =
     (if p = [] then Inl ENOENT
      else walk_comps (root s) (if hd p = sep then [] else cwd s) (split_sep p))"

definition stat :: "world \<Rightarrow> string \<Rightarrow> errno + node" where
  "stat s p =
     (case resolve s p of
        Inl e \<Rightarrow> Inl e
      | Inr ap \<Rightarrow> (case lookup (root s) ap of None \<Rightarrow> Inl ENOENT | Some n \<Rightarrow> Inr n))"

subsection \<open>The OS primitives the module calls\<close>

definition isfile :: "world \<Rightarrow> string \<Rightarrow> bool" where
  "isfile s p = (case stat s p of Inr (File b) \<Rightarrow> True | _ \<Rightarrow> False)"

definition isdir :: "world \<Rightarrow> string \<Rightarrow> bool" where
  "isdir s p = (case stat s p of Inr (Dir es) \<Rightarrow> True | _ \<Rightarrow> False)"

definition exists :: "world \<Rightarrow> string \<Rightarrow> bool" where
  "exists s p = (case stat s p of Inr n \<Rightarrow> True | Inl e \<Rightarrow> False)"

definition listdir :: "world \<Rightarrow> string \<Rightarrow> error + string list" where
  "listdir s p =
     (case stat s p of
        Inl e \<Rightarrow> Inl (OSError e)
      | Inr (Dir es) \<Rightarrow> Inr (map fst es)
      | Inr _ \<Rightarrow> Inl (OSError ENOTDIR))"

definition put :: "world \<Rightarrow> string list \<Rightarrow> node option \<Rightarrow> world" where
  "put s ap v = s\<lparr>root := update_at (root s) ap v\<rparr>"

text \<open>\<^verbatim>\<open>os.mknod(path)\<close>: a new empty regular file; EEXIST for any existing entry.\<close>

definition mknod :: "world \<Rightarrow> string \<Rightarrow> (error + unit) \<times> world" where
  "mknod s p =
     (case resolve s p of
        Inl e \<Rightarrow> (Inl (OSError e), s)
      | Inr ap \<Rightarrow>
          (case lookup (root s) ap of
             Some n \<Rightarrow> (Inl (OSError EEXIST), s)
           | None \<Rightarrow> (Inr (), put s ap (Some (File [])))))"

text \<open>\<^verbatim>\<open>os.remove(path)\<close>: unlinks a non-directory.\<close>

definition remove :: "world \<Rightarrow> string \<Rightarrow> (error + unit) \<times> world" where
  "remove s p =
     (case resolve s p of
        Inl e \<Rightarrow> (Inl (OSError e), s)
      | Inr ap \<Rightarrow>
          (case lookup (root s) ap of
             None \<Rightarrow> (Inl (OSError ENOENT), s)
           | Some (Dir es) \<Rightarrow> (Inl (OSError EISDIR), s)
           | Some _ \<Rightarrow> (Inr (), put s ap None)))"

text \<open>
  \<^verbatim>\<open>os.rename(src, dst)\<close>, as rename(2): a non-directory replaces an existing
  non-directory, a directory replaces an empty directory, a directory cannot move
  below itself, and renaming a path to itself does nothing.
\<close>

definition rename :: "world \<Rightarrow> string \<Rightarrow> string \<Rightarrow> (error + unit) \<times> world" where
  "rename s src dst =
     (case resolve s src of
        Inl e \<Rightarrow> (Inl (OSError e), s)
      | Inr asrc \<Rightarrow>
          (case lookup (root s) asrc of
             None \<Rightarrow> (Inl (OSError ENOENT), s)
           | Some n \<Rightarrow>
               (case resolve s dst of
                  Inl e \<Rightarrow> (Inl (OSError e), s)
                | Inr adst \<Rightarrow>
                    if asrc = adst then (Inr (), s)
                    else if is_Dir n \<and> take (length asrc) adst = asrc then (Inl (OSError EINVAL), s)
                    else
                      (case lookup (root s) adst of
                         None \<Rightarrow> (Inr (), put (put s asrc None) adst (Some n))
                       | Some (Dir es) \<Rightarrow>
                           if \<not> is_Dir n then (Inl (OSError EISDIR), s)
                           else if es \<noteq> [] then (Inl (OSError ENOTEMPTY), s)
                           else (Inr (), put (put s asrc None) adst (Some n))
                       | Some m \<Rightarrow>
                           if is_Dir n then (Inl (OSError ENOTDIR), s)
                           else (Inr (), put (put s asrc None) adst (Some n))))))"

text \<open>
  \<^verbatim>\<open>shutil.move(src, dst)\<close>. A destination that is a directory receives the source
  under the source's own name, unless that name is taken there. When \<^verbatim>\<open>os.rename\<close>
  fails the library falls back to copying: for a directory source it refuses a move
  into itself and otherwise copies the tree (not modelled); for any other source
  \<^verbatim>\<open>copy2\<close> opens the source and then the destination, which on one filesystem
  fails the way the rename did (a socket source fails with ENXIO at the open).
\<close>

definition samefile :: "world \<Rightarrow> string \<Rightarrow> string \<Rightarrow> bool" where
  "samefile s a b =
     (case (resolve s a, resolve s b) of
        (Inr x, Inr y) \<Rightarrow> x = y \<and> lookup (root s) x \<noteq> None
      | _ \<Rightarrow> False)"

definition destinsrc :: "world \<Rightarrow> string \<Rightarrow> string \<Rightarrow> bool" where
  "destinsrc s src dst =
     (case (resolve s src, resolve s dst) of
        (Inr x, Inr y) \<Rightarrow> take (length x) y = x
      | _ \<Rightarrow> False)"

definition move_to :: "world \<Rightarrow> string \<Rightarrow> string \<Rightarrow> string \<Rightarrow> (error + string) \<times> world" where
  "move_to s src dst real_dst =
     (case rename s src real_dst of
        (Inr u, s') \<Rightarrow> (Inr real_dst, s')
      | (Inl e, s') \<Rightarrow>
          if isdir s src then
            (if destinsrc s src dst then (Inl ShutilError, s) else (Inl Unmodelled, s))
          else (case stat s src of
                  Inr Special \<Rightarrow> (Inl (OSError ENXIO), s)
                | _ \<Rightarrow> (Inl e, s)))"

definition shutil_move :: "world \<Rightarrow> string \<Rightarrow> string \<Rightarrow> (error + string) \<times> world" where
  "shutil_move s src dst =
     (if isdir s dst then
        (if samefile s src dst then
           (case rename s src dst of (Inl e, s') \<Rightarrow> (Inl e, s') | (Inr u, s') \<Rightarrow> (Inr dst, s'))
         else
           (let real_dst = join dst (basename (rstrip_sep src)) in
            if exists s real_dst then (Inl ShutilError, s)
            else move_to s src dst real_dst))
      else move_to s src dst dst)"


subsection \<open>Text encodings and text-mode I/O\<close>

text \<open>
  UTF-8 as CPython implements it. The encoder refuses surrogates. The decoder reads
  one character or reports how many bytes the error handler is given: the lead byte
  alone for an invalid start or an invalid first continuation, the valid prefix when
  a later continuation byte is invalid, and everything that is left when the data
  ends inside a sequence.
\<close>

definition utf8_enc :: "nat \<Rightarrow> nat list option" where
  "utf8_enc c =
     (if c < 0x80 then Some [c]
      else if c < 0x800 then Some [0xC0 + c div 64, 0x80 + c mod 64]
      else if c < 0x10000 then
        (if 0xD800 \<le> c \<and> c < 0xE000 then None
         else Some [0xE0 + c div 4096, 0x80 + c div 64 mod 64, 0x80 + c mod 64])
      else if c < 0x110000 then
        Some [0xF0 + c div 262144, 0x80 + c div 4096 mod 64, 0x80 + c div 64 mod 64, 0x80 + c mod 64]
      else None)"

fun utf8_encode :: "unicode \<Rightarrow> nat list option" where
  "utf8_encode [] = Some []"
| "utf8_encode (c # cs) =
     (case utf8_enc c of
        None \<Rightarrow> None
      | Some bs \<Rightarrow> (case utf8_encode cs of None \<Rightarrow> None | Some r \<Rightarrow> Some (bs @ r)))"

definition is_cont :: "nat \<Rightarrow> bool" where
  "is_cont b = (0x80 \<le> b \<and> b < 0xC0)"

text \<open>
  \<open>Char c k\<close>: the character \<open>c\<close> was read from the lead byte and \<open>k\<close> more bytes;
  \<open>Bad k\<close>: the lead byte and \<open>k\<close> more bytes are undecodable.
\<close>

datatype utf8_step = Char nat nat | Bad nat

fun utf8_next :: "nat \<Rightarrow> nat list \<Rightarrow> utf8_step" where
  "utf8_next b bs =
     (if b < 0x80 then Char b 0
      else if b < 0xC2 then Bad 0
      else if b < 0xE0 then
        (case bs of
           [] \<Rightarrow> Bad 0
         | b2 # r2 \<Rightarrow> if is_cont b2 then Char ((b - 0xC0) * 64 + (b2 - 0x80)) 1 else Bad 0)
      else if b < 0xF0 then
        (case bs of
           [] \<Rightarrow> Bad 0
         | b2 # r2 \<Rightarrow>
             if \<not> is_cont b2 \<or> (if b2 < 0xA0 then b = 0xE0 else b = 0xED) then Bad 0
             else (case r2 of
                     [] \<Rightarrow> Bad 1
                   | b3 # r3 \<Rightarrow>
                       if \<not> is_cont b3 then Bad 1
                       else Char ((b - 0xE0) * 4096 + (b2 - 0x80) * 64 + (b3 - 0x80)) 2))
      else if b < 0xF5 then
        (case bs of
           [] \<Rightarrow> Bad 0
         | b2 # r2 \<Rightarrow>
             if \<not> is_cont b2 \<or> (if b2 < 0x90 then b = 0xF0 else b = 0xF4) then Bad 0
             else (case r2 of
                     [] \<Rightarrow> Bad 1
                   | b3 # r3 \<Rightarrow>
                       if \<not> is_cont b3 then Bad 1
                       else (case r3 of
                               [] \<Rightarrow> Bad 2
                             | b4 # r4 \<Rightarrow>
                                 if \<not> is_cont b4 then Bad 2
                                 else Char ((b - 0xF0) * 262144 + (b2 - 0x80) * 4096
                                            + (b3 - 0x80) * 64 + (b4 - 0x80)) 3)))
      else Bad 0)"

text \<open>\<open>utf8_decode ignore bs\<close>: \<^verbatim>\<open>errors='ignore'\<close> skips what \<open>Bad\<close> reports; strict fails.\<close>

fun utf8_decode :: "bool \<Rightarrow> nat list \<Rightarrow> unicode option" where
  "utf8_decode ignore [] = Some []"
| "utf8_decode ignore (b # bs) =
     (case utf8_next b bs of
        Char c k \<Rightarrow> (case utf8_decode ignore (drop k bs) of None \<Rightarrow> None | Some r \<Rightarrow> Some (c # r))
      | Bad k \<Rightarrow> if ignore then utf8_decode ignore (drop k bs) else None)"

definition encode :: "encoding \<Rightarrow> unicode \<Rightarrow> bytes option" where
  "encode enc t =
     (case enc of
        UTF8 \<Rightarrow> map_option (map of_nat) (utf8_encode t)
      | ASCII \<Rightarrow> if \<forall>c \<in> set t. c < 0x80 then Some (map of_nat t) else None
      | LATIN1 \<Rightarrow> if \<forall>c \<in> set t. c < 0x100 then Some (map of_nat t) else None)"

definition decode :: "encoding \<Rightarrow> bool \<Rightarrow> bytes \<Rightarrow> unicode option" where
  "decode enc ignore bs =
     (case enc of
        UTF8 \<Rightarrow> utf8_decode ignore (map unat bs)
      | ASCII \<Rightarrow>
          if ignore then Some (filter (\<lambda>c. c < 0x80) (map unat bs))
          else if \<forall>b \<in> set bs. unat b < 0x80 then Some (map unat bs) else None
      | LATIN1 \<Rightarrow> Some (map unat bs))"

text \<open>
  Text mode with \<^verbatim>\<open>newline=None\<close>: reading turns \<^verbatim>\<open>\r\n\<close> and a lone \<^verbatim>\<open>\r\<close> into
  \<^verbatim>\<open>\n\<close> (code points 13 and 10); writing turns \<^verbatim>\<open>\n\<close> into \<^verbatim>\<open>os.linesep\<close>, which
  is \<^verbatim>\<open>\n\<close> itself on POSIX.
\<close>

fun universal_newlines :: "unicode \<Rightarrow> unicode" where
  "universal_newlines [] = []"
| "universal_newlines [c] = [if c = 13 then 10 else c]"
| "universal_newlines (c # d # cs) =
     (if c = 13 then (if d = 10 then 10 # universal_newlines cs
                      else 10 # universal_newlines (d # cs))
      else c # universal_newlines (d # cs))"

text \<open>
  \<^verbatim>\<open>open(path, 'w+', encoding=enc)\<close> creates or truncates the file and gives its
  position; \<^verbatim>\<open>file.write(data)\<close> encodes at once, so a character the encoding lacks
  raises with the file already truncated.
\<close>

definition open_w :: "world \<Rightarrow> string \<Rightarrow> (error + string list) \<times> world" where
  "open_w s p =
     (case resolve s p of
        Inl e \<Rightarrow> (Inl (OSError e), s)
      | Inr ap \<Rightarrow>
          (case lookup (root s) ap of
             Some (Dir es) \<Rightarrow> (Inl (OSError EISDIR), s)
           | Some Special \<Rightarrow> (Inl (OSError ENXIO), s)
           | _ \<Rightarrow> (Inr ap, put s ap (Some (File [])))))"

definition file_write :: "world \<Rightarrow> string list \<Rightarrow> encoding \<Rightarrow> unicode \<Rightarrow> (error + unit) \<times> world" where
  "file_write s ap enc data =
     (case encode enc data of
        None \<Rightarrow> (Inl UnicodeEncodeError, s)
      | Some bs \<Rightarrow> (Inr (), put s ap (Some (File bs))))"

text \<open>\<^verbatim>\<open>open(path, 'r', encoding=enc, errors=...)\<close> followed by \<^verbatim>\<open>file.read()\<close>.\<close>

definition open_read :: "world \<Rightarrow> string \<Rightarrow> encoding \<Rightarrow> bool \<Rightarrow> error + unicode" where
  "open_read s p enc ignore =
     (case stat s p of
        Inl e \<Rightarrow> Inl (OSError e)
      | Inr (Dir es) \<Rightarrow> Inl (OSError EISDIR)
      | Inr Special \<Rightarrow> Inl (OSError ENXIO)
      | Inr (File bs) \<Rightarrow>
          (case decode enc ignore bs of
             None \<Rightarrow> Inl UnicodeDecodeError
           | Some t \<Rightarrow> Inr (universal_newlines t)))"

text \<open>\<^verbatim>\<open>text.replace(old, '')\<close>: one pass from the left over non-overlapping matches.\<close>

function replace_del :: "unicode \<Rightarrow> unicode \<Rightarrow> unicode" where
  "replace_del old [] = []"
| "replace_del old (c # cs) =
     (if old \<noteq> [] \<and> take (length old) (c # cs) = old
      then replace_del old (drop (length old) (c # cs))
      else c # replace_del old cs)"
  by pat_completeness auto
termination
  by (relation "measure (\<lambda>(old, t). length t)") auto


section \<open>The module \<^verbatim>\<open>ds_toolkit.common.files\<close>\<close>

subsection \<open>Directory listing\<close>

definition list_dir :: "world \<Rightarrow> string \<Rightarrow> bool \<Rightarrow> error + string list" where
  "list_dir s folder_path full_path =
     (case listdir s folder_path of
        Inl e \<Rightarrow> Inl e
      | Inr file_names \<Rightarrow>
          Inr (if full_path then map (join folder_path) file_names else file_names))"

definition list_dir_files :: "world \<Rightarrow> string \<Rightarrow> bool \<Rightarrow> error + string list" where
  "list_dir_files s folder_path full_path =
     (case listdir s folder_path of
        Inl e \<Rightarrow> Inl e
      | Inr file_names \<Rightarrow>
          Inr (map (\<lambda>file_name. if full_path then join folder_path file_name else file_name)
                 (filter (\<lambda>file_name. isfile s (join folder_path file_name)) file_names)))"

definition list_dir_folders :: "world \<Rightarrow> string \<Rightarrow> bool \<Rightarrow> error + string list" where
  "list_dir_folders s folder_path full_path =
     (case listdir s folder_path of
        Inl e \<Rightarrow> Inl e
      | Inr file_names \<Rightarrow>
          Inr (map (\<lambda>file_name. if full_path then join folder_path file_name @ ''/'' else file_name)
                 (filter (\<lambda>file_name. isdir s (join folder_path file_name)) file_names)))"

text \<open>
  \<^verbatim>\<open>os.walk(top)\<close>, top-down: one triple (dirpath, dirnames, filenames) for the
  directory, where filenames are the entries that are not directories, then the walk
  of each subdirectory under the joined path. A top that cannot be scanned yields
  nothing: \<^verbatim>\<open>os.walk\<close> swallows the error.
\<close>

fun walk :: "string \<Rightarrow> node \<Rightarrow> (string \<times> string list \<times> string list) list" where
  "walk dirpath (Dir es) =
     (dirpath, map fst (filter (\<lambda>e. is_Dir (snd e)) es), map fst (filter (\<lambda>e. \<not> is_Dir (snd e)) es))
       # concat (map (\<lambda>e. walk (join dirpath (fst e)) (snd e)) (filter (\<lambda>e. is_Dir (snd e)) es))"
| "walk dirpath n = []"

definition os_walk :: "world \<Rightarrow> string \<Rightarrow> (string \<times> string list \<times> string list) list" where
  "os_walk s dirpath = (case stat s dirpath of Inr n \<Rightarrow> walk dirpath n | Inl e \<Rightarrow> [])"

definition list_dir_tree :: "world \<Rightarrow> string \<Rightarrow> string list" where
  "list_dir_tree s root_folder =
     concat (map (\<lambda>(root, directories, files).
                    filter (\<lambda>fp. \<not> isdir s fp) (map (join root) files))
                 (os_walk s root_folder))"

subsection \<open>File type detection\<close>

text \<open>
  The inspector is the \<^verbatim>\<open>magic\<close> library: \<^verbatim>\<open>import magic\<close> either raises (the text of
  the exception is kept) or gives the module, whose \<^verbatim>\<open>from_file(path, mime)\<close> returns
  a description or raises.
\<close>

record magic =
  from_file :: "string \<Rightarrow> bool \<Rightarrow> error + string"

record file_type =
  file_path :: string
  info :: string
  type :: string

definition import_error_message :: "string \<Rightarrow> string" where
  "import_error_message e =
     [CHR 0x0A, CHR 0x09, CHR 0x09] @ ''Exception importing magic library.''
     @ [CHR 0x0A, CHR 0x09, CHR 0x09]
     @ ''See how to set up for your OS here. https://pypi.org/project/python-magic/''
     @ [CHR 0x0A, CHR 0x09, CHR 0x09] @ ''Exception: '' @ e
     @ [CHR 0x0A, CHR 0x09, CHR 0x09]"

definition get_file_type ::
  "string + magic \<Rightarrow> world \<Rightarrow> string \<Rightarrow> (error + file_type option) \<times> world" where
  "get_file_type import_magic s fp =
     (case import_magic of
        Inl e \<Rightarrow> (Inr None, s\<lparr>log := log s @ [import_error_message e]\<rparr>)
      | Inr m \<Rightarrow>
          (case from_file m fp False of
             Inl e \<Rightarrow> (Inl e, s)
           | Inr i \<Rightarrow>
               (case from_file m fp True of
                  Inl e \<Rightarrow> (Inl e, s)
                | Inr t \<Rightarrow> (Inr (Some \<lparr>file_path = fp, info = i, type = t\<rparr>), s))))"

subsection \<open>File mutation\<close>

definition already_exists :: error where
  "already_exists = Raised_FileExistsError ''File path already exists''"

definition create_file :: "world \<Rightarrow> string \<Rightarrow> (error + unit) \<times> world" where
  "create_file s fp =
     (if isfile s fp then (Inl already_exists, s) else mknod s fp)"

definition write_to_file :: "world \<Rightarrow> string \<Rightarrow> unicode \<Rightarrow> bool \<Rightarrow> (error + unit) \<times> world" where
  "write_to_file s fp data overwrite =
     (if \<not> overwrite \<and> isfile s fp then (Inl already_exists, s)
      else (case open_w s fp of
              (Inl e, s') \<Rightarrow> (Inl e, s')
            | (Inr ap, s') \<Rightarrow> file_write s' ap (locale_encoding s') data))"

definition read_file :: "world \<Rightarrow> string \<Rightarrow> error + unicode" where
  "read_file s fp = open_read s fp (locale_encoding s) False"

definition delete_file :: "world \<Rightarrow> string \<Rightarrow> (error + unit) \<times> world" where
  "delete_file s fp = (if isfile s fp then remove s fp else (Inr (), s))"

definition move_file :: "world \<Rightarrow> string \<Rightarrow> string \<Rightarrow> (error + unit) \<times> world" where
  "move_file s from_file_path to_file_path =
     (if isfile s to_file_path then (Inl already_exists, s)
      else (case shutil_move s from_file_path to_file_path of
              (Inl e, s') \<Rightarrow> (Inl e, s')
            | (Inr d, s') \<Rightarrow> (Inr (), s')))"

definition rename_file :: "world \<Rightarrow> string \<Rightarrow> string \<Rightarrow> (error + unit) \<times> world" where
  "rename_file s fp new_name =
     (let (head, tail) = split fp;
          to_file_path = join head new_name
      in if isfile s to_file_path then (Inl already_exists, s)
         else rename s fp to_file_path)"

text \<open>
  \<^verbatim>\<open>fix_encoding\<close>: \<^verbatim>\<open>remove_chars\<close> is \<^verbatim>\<open>None\<close> or a list of strings; \<^verbatim>\<open>None\<close> and the
  empty list both skip the loop.
\<close>

definition fix_encoding ::
  "world \<Rightarrow> string \<Rightarrow> encoding \<Rightarrow> encoding \<Rightarrow> unicode list option \<Rightarrow> (error + unit) \<times> world" where
  "fix_encoding s fp read_as write_as remove_chars =
     (case open_read s fp read_as True of
        Inl e \<Rightarrow> (Inl e, s)
      | Inr text0 \<Rightarrow>
          (let text1 = (case remove_chars of
                          None \<Rightarrow> text0
                        | Some rs \<Rightarrow> foldl (\<lambda>t remove_char. replace_del remove_char t) text0 rs)
           in case open_w s fp of
                (Inl e, s') \<Rightarrow> (Inl e, s')
              | (Inr ap, s') \<Rightarrow> file_write s' ap write_as text1))"

fun move_all_loop :: "world \<Rightarrow> string \<Rightarrow> string list \<Rightarrow> (error + unit) \<times> world" where
  "move_all_loop s to_folder [] = (Inr (), s)"
| "move_all_loop s to_folder (fp # file_paths) =
     (if isfile s fp then
        (case move_file s fp (join to_folder (snd (split fp))) of
           (Inl e, s') \<Rightarrow> (Inl e, s')
         | (Inr u, s') \<Rightarrow> move_all_loop s' to_folder file_paths)
      else move_all_loop s to_folder file_paths)"

definition move_all_files_from_root :: "world \<Rightarrow> string \<Rightarrow> string \<Rightarrow> (error + unit) \<times> world" where
  "move_all_files_from_root s root_folder to_folder =
     move_all_loop s to_folder (list_dir_tree s root_folder)"

section \<open>Auxiliary notions for the proofs\<close>

text \<open>
  \<open>look\<close> is \<open>lookup\<close> without the contents of directories: it tells what kind of
  entry a position holds, and for a file which bytes.
\<close>

fun shape :: "node \<Rightarrow> node" where
  "shape (Dir es) = Dir []"
| "shape n = n"

definition look :: "node \<Rightarrow> string list \<Rightarrow> node option" where
  "look r ap = map_option shape (lookup r ap)"

text \<open>
  The scenario of the specification: \<^verbatim>\<open>/root/a.txt\<close>, \<^verbatim>\<open>/root/sub/b.txt\<close> and an empty
  \<^verbatim>\<open>/dest\<close>.
\<close>

definition scenario :: world where
  "scenario =
     \<lparr>root = Dir [(''root'', Dir [(''a.txt'', File [0x68, 0x69]),
                                 (''sub'', Dir [(''b.txt'', File [0x79, 0x6F])])]),
                  (''dest'', Dir [])],
      cwd = [], locale_encoding = UTF8, log = []\<rparr>"

text \<open>An inspector for the examples: it knows two files and fails on the MIME query for one.\<close>

definition magic_stub :: magic where
  "magic_stub =
     \<lparr>from_file = (\<lambda>p mime. if p = ''/root/a.txt''
                               then (if mime then Inr ''text/plain'' else Inr ''ASCII text'')
                             else if p = ''/root/sub/b.txt''
                               then (if mime then Inl (OSError ENOENT) else Inr ''data'')
                             else Inl (OSError ENOENT))\<rparr>"

text \<open>
  A well-formed tree: within a directory the names are distinct, and a name is not
  empty, has no slash and is neither \<^verbatim>\<open>.\<close> nor \<^verbatim>\<open>..\<close>, as in every real directory.
\<close>

definition wfname :: "string \<Rightarrow> bool" where
  "wfname n = (n \<noteq> [] \<and> sep \<notin> set n \<and> n \<noteq> ''.'' \<and> n \<noteq> ''..'')"

fun wf :: "node \<Rightarrow> bool" where
  "wf (Dir es) = (distinct (map fst es) \<and> (\<forall>e \<in> set es. wfname (fst e) \<and> wf (snd e)))"
| "wf n = True"

section \<open>Properties of the tree and of path resolution\<close>

lemma map_of_map_child:
  "map_of (map (\<lambda>e. if fst e = c then (c, f (snd e)) else e) es) k
     = (if k = c then map_option f (map_of es c) else map_of es k)"
  by (induction es) auto

lemma map_of_set_entry: "map_of (set_entry es n v) k = (if k = n then v else map_of es k)"
proof (cases v)
  case None
  have "map_of (filter (\<lambda>e. fst e \<noteq> n) es) k = (if k = n then None else map_of es k)"
    by (induction es) auto
  with None show ?thesis by (simp add: set_entry_def)
next
  case (Some c)
  show ?thesis
  proof (cases "n \<in> fst ` set es")
    case True
    then obtain z where "map_of es n = Some z"
      by (metis map_of_eq_None_iff not_None_eq)
    then have "map_of (map (\<lambda>e. if fst e = n then (n, c) else e) es) k = (if k = n then Some c else map_of es k)"
      using map_of_map_child [of n "\<lambda>_. c" es k] by simp
    with True Some show ?thesis by (simp add: set_entry_def)
  next
    case False
    then have "map_of es n = None"
      by (simp add: map_of_eq_None_iff)
    then have "map_of (es @ [(n, c)]) k = (if k = n then Some c else map_of es k)"
      by (simp add: map_add_def split: option.splits)
    with False Some show ?thesis by (simp add: set_entry_def)
  qed
qed

lemma lookup_append:
  "lookup r (xs @ ys) = (case lookup r xs of None \<Rightarrow> None | Some n \<Rightarrow> lookup n ys)"
proof (induction xs arbitrary: r)
  case Nil
  then show ?case by simp
next
  case (Cons c cs)
  then show ?case by (cases r) (simp_all split: option.splits)
qed

lemma lookup_nondir: "\<not> is_Dir n \<Longrightarrow> lookup n (c # cs) = None"
  by (cases n) auto

lemma is_dir_at_nondir: "\<not> is_Dir r \<Longrightarrow> \<not> is_dir_at r ap"
  by (cases r; cases ap) (simp_all add: is_dir_at_def)

lemma is_dir_at_Cons:
  "is_dir_at (Dir es) (c # cs) = (case map_of es c of None \<Rightarrow> False | Some n \<Rightarrow> is_dir_at n cs)"
  by (simp add: is_dir_at_def split: option.splits)

lemma look_Nil: "look r [] = Some (shape r)"
  by (simp add: look_def)

lemma look_Cons:
  "look (Dir es) (c # cs) = (case map_of es c of None \<Rightarrow> None | Some n \<Rightarrow> look n cs)"
  by (simp add: look_def split: option.splits)

lemma look_nondir: "\<not> is_Dir n \<Longrightarrow> look n (c # cs) = None"
  by (simp add: look_def lookup_nondir)

lemma shape_nondir: "\<not> is_Dir n \<Longrightarrow> shape n = n"
  by (cases n) auto

lemma look_update:
  assumes "ap \<noteq> []" "is_dir_at r (butlast ap)" "\<not> is_dir_at r ap"
    and "\<forall>n. v = Some n \<longrightarrow> \<not> is_Dir n"
  shows "look (update_at r ap v) q = (if q = ap then v else look r q)"
  using assms(1-3)
proof (induction ap arbitrary: r q)
  case Nil
  then show ?case by simp
next
  case (Cons c cs)
  from Cons.prems(2) obtain es where r: "r = Dir es"
    using is_dir_at_nondir by (cases r) auto
  show ?case
  proof (cases cs)
    case Nil
    have old: "\<And>n. map_of es c = Some n \<Longrightarrow> \<not> is_Dir n"
      using Cons.prems(3) r Nil by (auto simp: is_dir_at_def split: node.splits)
    show ?thesis
    proof (cases q)
      case Nil
      with r \<open>cs = []\<close> show ?thesis by (simp add: look_Nil)
    next
      case (Cons k q')
      show ?thesis
      proof (cases "k = c")
        case False
        with Cons r \<open>cs = []\<close> show ?thesis by (simp add: look_Cons map_of_set_entry)
      next
        case True
        show ?thesis
        proof (cases q')
          case Nil
          with Cons True r \<open>cs = []\<close> assms(4) show ?thesis
            by (cases v) (simp_all add: look_Cons map_of_set_entry look_Nil shape_nondir)
        next
          case (Cons k' q'')
          with \<open>q = k # q'\<close> True r \<open>cs = []\<close> assms(4) old show ?thesis
            by (cases v; cases "map_of es c") (simp_all add: look_Cons map_of_set_entry look_nondir)
        qed
      qed
    qed
  next
    case (Cons d cs')
    from Cons.prems(2) r Cons obtain ch where ch: "map_of es c = Some ch" "is_dir_at ch (butlast (d # cs'))"
      by (auto simp: is_dir_at_Cons split: option.splits)
    from Cons.prems(3) r Cons ch have nd: "\<not> is_dir_at ch (d # cs')"
      by (simp add: is_dir_at_Cons)
    have IH: "look (update_at ch (d # cs') v) q' = (if q' = d # cs' then v else look ch q')" for q'
      using Cons.IH [of ch q'] ch nd Cons by simp
    show ?thesis
    proof (cases q)
      case Nil
      with r Cons show ?thesis by (simp add: look_Nil)
    next
      case (Cons k q')
      with r \<open>cs = d # cs'\<close> ch IH show ?thesis
        by (simp add: look_Cons map_of_map_child [of c "\<lambda>n. update_at n (d # cs') v" es])
    qed
  qed
qed

lemma is_dir_at_look: "is_dir_at r ap = (look r ap = Some (Dir []))"
  by (auto simp: is_dir_at_def look_def split: option.splits node.splits)

lemma is_dir_at_update:
  assumes "ap \<noteq> []" "is_dir_at r (butlast ap)" "\<not> is_dir_at r ap"
    and "\<forall>n. v = Some n \<longrightarrow> \<not> is_Dir n"
  shows "is_dir_at (update_at r ap v) q = is_dir_at r q"
  using look_update [where q = q, OF assms] assms(3,4) by (auto simp: is_dir_at_look)


lemma walk_comps_dir_equiv:
  assumes "\<And>q. is_dir_at r' q = is_dir_at r q"
  shows "walk_comps r cur cs = Inr ap \<Longrightarrow> walk_comps r' cur cs = Inr ap"
proof (induction cs arbitrary: cur)
  case Nil
  then show ?case by simp
next
  case (Cons c cs)
  from Cons.prems obtain es where es: "lookup r cur = Some (Dir es)"
    by (auto split: option.splits node.splits)
  then have "is_dir_at r' cur"
    using assms by (simp add: is_dir_at_def)
  then obtain es' where es': "lookup r' cur = Some (Dir es')"
    by (auto simp: is_dir_at_def split: option.splits node.splits)
  from Cons.prems es es' Cons.IH show ?case
    by (auto split: if_splits)
qed

lemma split_sep_not_Nil: "split_sep p \<noteq> []"
  by (cases p) auto

lemma walk_comps_root_dir: "walk_comps r cur cs = Inr ap \<Longrightarrow> cs \<noteq> [] \<Longrightarrow> is_Dir r"
proof (cases cs)
  case Nil
  assume "cs \<noteq> []"
  with Nil show ?thesis by simp
next
  case (Cons c cs')
  assume "walk_comps r cur cs = Inr ap"
  with Cons have "is_dir_at r cur"
    by (auto simp: is_dir_at_def split: option.splits node.splits)
  then show ?thesis
    using is_dir_at_nondir by blast
qed

lemma lookup_parent:
  assumes "lookup r ap = Some n" "ap \<noteq> []"
  shows "is_dir_at r (butlast ap)"
proof -
  from assms(2) have "ap = butlast ap @ [last ap]" by simp
  then have "lookup r (butlast ap @ [last ap]) = Some n"
    using assms(1) by simp
  then obtain m where m: "lookup r (butlast ap) = Some m" "lookup m [last ap] = Some n"
    by (auto simp: lookup_append split: option.splits)
  then have "is_Dir m" by (cases m) auto
  with m show ?thesis by (cases m) (auto simp: is_dir_at_def)
qed

lemma walk_comps_parent:
  "walk_comps r cur cs = Inr ap \<Longrightarrow> cs \<noteq> [] \<Longrightarrow>
     lookup r ap \<noteq> None \<or> (ap \<noteq> [] \<and> is_dir_at r (butlast ap))"
proof (induction cs arbitrary: cur)
  case Nil
  then show ?case by simp
next
  case (Cons c cs)
  from Cons.prems obtain es where es: "lookup r cur = Some (Dir es)"
    by (auto split: option.splits node.splits)
  show ?case
  proof (cases cs)
    case Nil
    have "lookup r (butlast cur) \<noteq> None"
    proof (cases cur)
      case Nil
      then show ?thesis by simp
    next
      case (Cons a list)
      then have "is_dir_at r (butlast cur)" using lookup_parent [OF es] by simp
      then show ?thesis by (auto simp: is_dir_at_def split: option.splits)
    qed
    with Cons.prems es Nil show ?thesis
      by (auto simp: is_dir_at_def split: if_splits)
  next
    case (Cons d ds)
    from Cons.prems(1) es obtain cur' where "walk_comps r cur' cs = Inr ap"
      by (auto split: if_splits)
    with Cons.IH [of cur'] Cons show ?thesis
      by simp
  qed
qed

lemma resolve_cases:
  assumes "resolve s p = Inr ap"
  shows "is_Dir (root s)" and "lookup (root s) ap \<noteq> None \<or> (ap \<noteq> [] \<and> is_dir_at (root s) (butlast ap))"
  using assms walk_comps_root_dir walk_comps_parent split_sep_not_Nil
  by (auto simp: resolve_def split: if_splits)

text \<open>A position that resolution produced and that holds no directory can be rebound.\<close>

lemma resolve_slot:
  assumes "resolve s p = Inr ap" "\<not> is_dir_at (root s) ap"
  shows "ap \<noteq> []" "is_dir_at (root s) (butlast ap)"
proof -
  from resolve_cases(1) [OF assms(1)] assms(2) show ne: "ap \<noteq> []"
    by (cases "root s") (auto simp: is_dir_at_def)
  from resolve_cases(2) [OF assms(1)] ne show "is_dir_at (root s) (butlast ap)"
    using lookup_parent by (cases "lookup (root s) ap") auto
qed

lemma root_put [simp]: "root (put s ap v) = update_at (root s) ap v"
  and cwd_put [simp]: "cwd (put s ap v) = cwd s"
  and locale_put [simp]: "locale_encoding (put s ap v) = locale_encoding s"
  and log_put [simp]: "log (put s ap v) = log s"
  by (simp_all add: put_def)

lemma look_put:
  assumes "resolve s p = Inr ap" "\<not> is_dir_at (root s) ap" "\<forall>n. v = Some n \<longrightarrow> \<not> is_Dir n"
  shows "look (root (put s ap v)) q = (if q = ap then v else look (root s) q)"
  using look_update [OF resolve_slot [OF assms(1,2)] assms(2,3)] by simp

lemma is_dir_at_put:
  assumes "resolve s p = Inr ap" "\<not> is_dir_at (root s) ap" "\<forall>n. v = Some n \<longrightarrow> \<not> is_Dir n"
  shows "is_dir_at (root (put s ap v)) q = is_dir_at (root s) q"
  using is_dir_at_update [OF resolve_slot [OF assms(1,2)] assms(2,3)] by simp

lemma resolve_put:
  assumes "resolve s p = Inr ap" "\<not> is_dir_at (root s) ap" "\<forall>n. v = Some n \<longrightarrow> \<not> is_Dir n"
    and "resolve s p' = Inr x"
  shows "resolve (put s ap v) p' = Inr x"
  using assms(4) walk_comps_dir_equiv [of "root (put s ap v)" "root s", OF is_dir_at_put [OF assms(1-3)]]
  by (auto simp: resolve_def split: if_splits)

lemma stat_look:
  "stat s p = Inr n \<Longrightarrow> \<exists>ap. resolve s p = Inr ap \<and> lookup (root s) ap = Some n"
  by (auto simp: stat_def split: sum.splits option.splits)

lemma isfile_iff:
  "isfile s p = (\<exists>ap b. resolve s p = Inr ap \<and> look (root s) ap = Some (File b))"
  by (auto simp: isfile_def stat_def look_def split: sum.splits option.splits node.splits)

lemma isdir_iff:
  "isdir s p = (\<exists>ap. resolve s p = Inr ap \<and> is_dir_at (root s) ap)"
  by (auto simp: isdir_def stat_def is_dir_at_def split: sum.splits option.splits node.splits)

lemmas fs_eval = scenario_def isfile_def isdir_def exists_def stat_def resolve_def sep_def
  put_def join_def basename_def rstrip_sep_def split_def

section \<open>The overwrite guard of \<^verbatim>\<open>move_file\<close>\<close>

text \<open>
  Claim C2. For all paths \<open>a\<close> and \<open>b\<close>: when \<open>b\<close> exists as a regular file,
  \<^verbatim>\<open>move_file(a, b)\<close> raises \<^verbatim>\<open>FileExistsError\<close> and the filesystem is the one before
  the call, so whatever \<open>a\<close> denoted it still denotes.
\<close>

theorem move_file_existing_target:
  "isfile s b \<Longrightarrow>
     move_file s a b = (Inl (Raised_FileExistsError ''File path already exists''), s)
     \<and> stat (snd (move_file s a b)) a = stat s a"
  by (simp add: move_file_def already_exists_def)

theorem move_file_existing_target_witness:
  "isfile scenario ''/root/sub/b.txt''
   \<and> move_file scenario ''/root/a.txt'' ''/root/sub/b.txt''
       = (Inl (Raised_FileExistsError ''File path already exists''), scenario)
   \<and> stat scenario ''/root/a.txt'' = Inr (File [0x68, 0x69])"
proof -
  have h: "isfile scenario ''/root/sub/b.txt''"
    by (simp add: fs_eval)
  have "stat scenario ''/root/a.txt'' = Inr (File [0x68, 0x69])"
    by (simp add: fs_eval)
  with h move_file_existing_target [OF h, of "''/root/a.txt''"] show ?thesis
    by simp
qed

section \<open>Deleting\<close>

lemma remove_file:
  assumes "isfile s p"
  shows "\<exists>ap. resolve s p = Inr ap \<and> remove s p = (Inr (), put s ap None)
           \<and> \<not> isfile (put s ap None) p"
proof -
  from assms obtain ap b where ap: "resolve s p = Inr ap" "look (root s) ap = Some (File b)"
    by (auto simp: isfile_iff)
  then have nd: "\<not> is_dir_at (root s) ap"
    by (simp add: is_dir_at_look)
  from ap have lk: "lookup (root s) ap = Some (File b)"
    by (auto simp: look_def) (rename_tac z, case_tac z, auto)
  have "resolve (put s ap None) p = Inr ap"
    using resolve_put [OF ap(1) nd _ ap(1), of None] by simp
  moreover have "look (root (put s ap None)) ap = None"
    using look_put [OF ap(1) nd, of None ap] by simp
  ultimately have "\<not> isfile (put s ap None) p"
    by (simp add: isfile_iff)
  with ap(1) lk show ?thesis
    by (simp add: remove_def)
qed

text \<open>
  Claim C9. \<^verbatim>\<open>delete_file(p)\<close> on a path that is not a regular file returns normally
  and changes nothing. On any path the call returns normally, the path is no regular
  file afterwards, and a second call returns normally and changes nothing.
\<close>

theorem delete_file_idempotent:
  "(\<not> isfile s p \<longrightarrow> delete_file s p = (Inr (), s))
   \<and> (\<exists>s'. delete_file s p = (Inr (), s') \<and> \<not> isfile s' p \<and> delete_file s' p = (Inr (), s'))"
proof (cases "isfile s p")
  case True
  from remove_file [OF True] obtain ap where
    "remove s p = (Inr (), put s ap None)" "\<not> isfile (put s ap None) p"
    by blast
  with True show ?thesis
    by (auto simp: delete_file_def)
next
  case False
  then show ?thesis
    by (simp add: delete_file_def)
qed

theorem delete_file_idempotent_witness:
  "\<not> isfile scenario ''/root/missing''
   \<and> delete_file scenario ''/root/missing'' = (Inr (), scenario)
   \<and> isfile scenario ''/root/a.txt''
   \<and> (\<exists>s'. delete_file scenario ''/root/a.txt'' = (Inr (), s') \<and> \<not> isfile s' ''/root/a.txt''
          \<and> delete_file s' ''/root/a.txt'' = (Inr (), s'))"
proof -
  have h: "\<not> isfile scenario ''/root/missing''"
    by (simp add: fs_eval)
  have g: "isfile scenario ''/root/a.txt''"
    by (simp add: fs_eval)
  from h g delete_file_idempotent [of scenario "''/root/missing''"]
    delete_file_idempotent [of scenario "''/root/a.txt''"]
  show ?thesis by blast
qed

section \<open>Encoding and decoding\<close>

lemma utf8_enc_1:
  assumes "c < 0x80"
  shows "utf8_decode ig (c # r) = map_option ((#) c) (utf8_decode ig r)"
  using assms by (simp split: option.splits)

lemma utf8_enc_2:
  assumes "0x80 \<le> c" "c < 0x800"
  shows "utf8_decode ig ((0xC0 + c div 64) # (0x80 + c mod 64) # r) = map_option ((#) c) (utf8_decode ig r)"
proof -
  have a: "2 \<le> c div 64" "c div 64 < 32" using assms by auto
  have b: "c mod 64 < 64" by simp
  have c: "c div 64 * 64 + c mod 64 = c" by simp
  from a b show ?thesis
    by (simp add: is_cont_def c split: option.splits)
qed

lemma utf8_enc_3:
  assumes "0x800 \<le> c" "c < 0x10000" "\<not> (0xD800 \<le> c \<and> c < 0xE000)"
  shows "utf8_decode ig ((0xE0 + c div 4096) # (0x80 + c div 64 mod 64) # (0x80 + c mod 64) # r)
         = map_option ((#) c) (utf8_decode ig r)"
proof -
  define q where "q = c div 64"
  define h where "h = q div 64"
  define m where "m = q mod 64"
  define l where "l = c mod 64"
  have c: "c = 64 * q + l" "l < 64"
    by (simp_all add: q_def l_def)
  have q: "q = 64 * h + m" "m < 64"
    by (simp_all add: h_def m_def)
  have h: "c div 4096 = h"
    by (simp add: h_def q_def div_mult2_eq)
  have a: "h < 16" using assms c q by arith
  have d: "m < 32 \<Longrightarrow> 0 < h" using assms c q by arith
  have e: "\<not> m < 32 \<Longrightarrow> h \<noteq> 13" using assms c q by arith
  have f: "h * 4096 + m * 64 + l = c" using c q by arith
  have "utf8_decode ig ((0xE0 + h) # (0x80 + m) # (0x80 + l) # r) = map_option ((#) c) (utf8_decode ig r)"
    using a c(2) q(2) d e by (auto simp add: is_cont_def f split: option.splits)
  then show ?thesis
    by (simp only: h q_def [symmetric] m_def [symmetric] l_def [symmetric])
qed

lemma utf8_enc_4:
  assumes "0x10000 \<le> c" "c < 0x110000"
  shows "utf8_decode ig ((0xF0 + c div 262144) # (0x80 + c div 4096 mod 64) # (0x80 + c div 64 mod 64) # (0x80 + c mod 64) # r)
         = map_option ((#) c) (utf8_decode ig r)"
proof -
  define q where "q = c div 64"
  define h where "h = q div 64"
  define g where "g = h div 64"
  define m where "m = q mod 64"
  define n where "n = h mod 64"
  define l where "l = c mod 64"
  have c: "c = 64 * q + l" "l < 64"
    by (simp_all add: q_def l_def)
  have q: "q = 64 * h + m" "m < 64"
    by (simp_all add: h_def m_def)
  have h: "h = 64 * g + n" "n < 64"
    by (simp_all add: g_def n_def)
  have h': "c div 4096 = h"
    by (simp add: h_def q_def div_mult2_eq)
  have g': "c div 262144 = g"
    by (simp add: g_def h_def q_def div_mult2_eq)
  have a: "g < 5" using assms c q h by arith
  have d: "n < 16 \<Longrightarrow> 0 < g" using assms c q h by arith
  have e: "\<not> n < 16 \<Longrightarrow> g \<noteq> 4" using assms c q h by arith
  have f: "g * 262144 + n * 4096 + m * 64 + l = c" using c q h by arith
  have "utf8_decode ig ((0xF0 + g) # (0x80 + n) # (0x80 + m) # (0x80 + l) # r) = map_option ((#) c) (utf8_decode ig r)"
    using a c(2) q(2) h(2) d e by (auto simp add: is_cont_def f split: option.splits)
  then show ?thesis
    by (simp only: h' g' q_def [symmetric] m_def [symmetric] l_def [symmetric] n_def [symmetric])
qed

lemma utf8_enc_decode:
  "utf8_enc c = Some ks \<Longrightarrow> utf8_decode ig (ks @ r) = map_option ((#) c) (utf8_decode ig r)"
  unfolding utf8_enc_def
  using utf8_enc_1 [of c ig r] utf8_enc_2 [of c ig r] utf8_enc_3 [of c ig r] utf8_enc_4 [of c ig r]
  by (auto split: if_splits simp del: utf8_decode.simps)

lemma utf8_encode_decode:
  "utf8_encode t = Some ns \<Longrightarrow> utf8_decode ig ns = Some t"
proof (induction t arbitrary: ns)
  case Nil
  then show ?case by simp
next
  case (Cons c cs)
  then obtain ks r where "utf8_enc c = Some ks" "utf8_encode cs = Some r" "ns = ks @ r"
    by (auto split: option.splits)
  with Cons.IH [of r] utf8_enc_decode [of c ks ig r] show ?case
    by simp
qed

lemma utf8_enc_byte: "utf8_enc c = Some ks \<Longrightarrow> k \<in> set ks \<Longrightarrow> k < 256"
  unfolding utf8_enc_def by (auto split: if_splits)

lemma utf8_encode_byte: "utf8_encode t = Some ns \<Longrightarrow> k \<in> set ns \<Longrightarrow> k < 256"
proof (induction t arbitrary: ns)
  case Nil
  then show ?case by simp
next
  case (Cons c cs)
  then show ?case
    using utf8_enc_byte by (auto split: option.splits)
qed

lemma unat_of_nat_byte: "k < 256 \<Longrightarrow> unat (of_nat k :: byte) = k"
  by (simp add: unat_of_nat)

lemma unat_of_nat_bytes:
  "\<forall>k \<in> set ns. k < 256 \<Longrightarrow> map unat (map of_nat ns :: bytes) = ns"
  by (induction ns) (simp_all add: unat_of_nat_byte)

lemma encode_decode: "encode enc t = Some bs \<Longrightarrow> decode enc ig bs = Some t"
proof (cases enc)
  case UTF8
  assume e: "encode enc t = Some bs"
  with UTF8 obtain ns where ns: "utf8_encode t = Some ns" "bs = map of_nat ns"
    by (auto simp: encode_def)
  then have "map unat bs = ns"
    using utf8_encode_byte unat_of_nat_bytes by blast
  with ns UTF8 show ?thesis
    by (simp add: decode_def utf8_encode_decode)
next
  case ASCII
  assume e: "encode enc t = Some bs"
  with ASCII have t: "\<forall>c \<in> set t. c < 0x80" "bs = map of_nat t"
    by (auto simp: encode_def split: if_splits)
  then have "map unat bs = t"
    using unat_of_nat_bytes [of t] by fastforce
  moreover have "\<forall>b \<in> set bs. unat b < 0x80"
    using t by (auto simp: unat_of_nat_byte)
  ultimately show ?thesis
    using t ASCII by (auto simp: decode_def filter_id_conv)
next
  case LATIN1
  assume e: "encode enc t = Some bs"
  with LATIN1 have t: "\<forall>c \<in> set t. c < 0x100" "bs = map of_nat t"
    by (auto simp: encode_def split: if_splits)
  then have "map unat bs = t"
    using unat_of_nat_bytes [of t] by fastforce
  with LATIN1 show ?thesis
    by (simp add: decode_def)
qed

lemma universal_newlines_id: "13 \<notin> set t \<Longrightarrow> universal_newlines t = t"
  by (induction t rule: universal_newlines.induct) auto

section \<open>Writing\<close>

lemma look_File: "(look r ap = Some (File b)) = (lookup r ap = Some (File b))"
  by (auto simp: look_def) (rename_tac z, case_tac z, auto)

lemma look_None: "(look r ap = None) = (lookup r ap = None)"
  by (simp add: look_def)

lemma look_Special: "(look r ap = Some Special) = (lookup r ap = Some Special)"
  by (auto simp: look_def) (rename_tac z, case_tac z, auto)

lemma stat_iff:
  "(stat s p = Inr n) = (\<exists>ap. resolve s p = Inr ap \<and> lookup (root s) ap = Some n)"
  by (auto simp: stat_def split: sum.splits option.splits)

text \<open>What a successful \<^verbatim>\<open>write_to_file\<close> has done.\<close>

lemma write_to_file_returns:
  assumes "write_to_file s p data ov = (Inr (), s')"
  shows "\<exists>ap bs. resolve s p = Inr ap \<and> \<not> is_dir_at (root s) ap
           \<and> encode (locale_encoding s) data = Some bs
           \<and> s' = put (put s ap (Some (File []))) ap (Some (File bs))"
proof -
  from assms obtain ap s1 where o: "open_w s p = (Inr ap, s1)"
    and w: "file_write s1 ap (locale_encoding s1) data = (Inr (), s')"
    by (auto simp: write_to_file_def split: if_splits prod.splits sum.splits)
  from o have ap: "resolve s p = Inr ap" "\<not> is_dir_at (root s) ap" "s1 = put s ap (Some (File []))"
    by (auto simp: open_w_def is_dir_at_def split: sum.splits option.splits node.splits)
  from w ap(3) obtain bs where "encode (locale_encoding s) data = Some bs"
    "s' = put s1 ap (Some (File bs))"
    by (auto simp: file_write_def split: option.splits)
  with ap show ?thesis by blast
qed

lemma put_put_file:
  assumes "resolve s p = Inr ap" "\<not> is_dir_at (root s) ap"
  shows "resolve (put (put s ap (Some (File a))) ap (Some (File b))) p = Inr ap"
    and "lookup (root (put (put s ap (Some (File a))) ap (Some (File b)))) ap = Some (File b)"
proof -
  let ?s1 = "put s ap (Some (File a))"
  have r1: "resolve ?s1 p = Inr ap"
    using resolve_put [OF assms _ assms(1), of "Some (File a)"] by simp
  have nd1: "\<not> is_dir_at (root ?s1) ap"
    using is_dir_at_put [OF assms, of "Some (File a)" ap] assms(2) by simp
  show "resolve (put ?s1 ap (Some (File b))) p = Inr ap"
    using resolve_put [OF r1 nd1 _ r1, of "Some (File b)"] by simp
  have "look (root (put ?s1 ap (Some (File b)))) ap = Some (File b)"
    using look_put [OF r1 nd1, of "Some (File b)" ap] by simp
  then show "lookup (root (put ?s1 ap (Some (File b)))) ap = Some (File b)"
    by (simp add: look_File)
qed

lemma write_to_file_content:
  assumes "write_to_file s p data ov = (Inr (), s')"
  shows "\<exists>bs. encode (locale_encoding s) data = Some bs \<and> stat s' p = Inr (File bs)
           \<and> locale_encoding s' = locale_encoding s"
proof -
  from write_to_file_returns [OF assms] obtain ap bs where
    ap: "resolve s p = Inr ap" "\<not> is_dir_at (root s) ap"
    and bs: "encode (locale_encoding s) data = Some bs"
    and s': "s' = put (put s ap (Some (File []))) ap (Some (File bs))"
    by blast
  from put_put_file [OF ap, of "[]" bs] s' have "stat s' p = Inr (File bs)"
    by (simp add: stat_iff)
  with bs s' show ?thesis by simp
qed

lemma write_to_file_existing:
  assumes "isfile s p" "encode (locale_encoding s) data = Some bs"
  shows "\<exists>s'. write_to_file s p data True = (Inr (), s')"
proof -
  from assms(1) obtain ap b where "resolve s p = Inr ap" "lookup (root s) ap = Some (File b)"
    by (auto simp: isfile_iff look_File)
  with assms(2) show ?thesis
    by (simp add: write_to_file_def open_w_def file_write_def)
qed

text \<open>
  Claim C3. When \<open>p\<close> exists as a regular file, \<^verbatim>\<open>write_to_file(p, data, overwrite=False)\<close>
  raises \<^verbatim>\<open>FileExistsError\<close> with the filesystem untouched; with \<^verbatim>\<open>overwrite=True\<close> a
  call that returns leaves exactly the encoded \<open>data\<close> in the file, and the call does
  return when the locale's encoding has every character of \<open>data\<close>.
\<close>

theorem write_to_file_guard:
  "isfile s p \<Longrightarrow>
     write_to_file s p data False
       = (Inl (Raised_FileExistsError ''File path already exists''), s)
     \<and> (\<forall>s'. write_to_file s p data True = (Inr (), s') \<longrightarrow>
            (\<exists>bs. encode (locale_encoding s) data = Some bs \<and> stat s' p = Inr (File bs)))
     \<and> (encode (locale_encoding s) data \<noteq> None \<longrightarrow>
            (\<exists>s'. write_to_file s p data True = (Inr (), s')))"
  using write_to_file_content [of s p data True] write_to_file_existing [of s p data]
  by (auto simp: write_to_file_def already_exists_def)

theorem write_to_file_guard_witness:
  "isfile scenario ''/root/a.txt''
   \<and> write_to_file scenario ''/root/a.txt'' [0x6F, 0x6B] False
       = (Inl (Raised_FileExistsError ''File path already exists''), scenario)
   \<and> encode (locale_encoding scenario) [0x6F, 0x6B] = Some [0x6F, 0x6B]
   \<and> stat (snd (write_to_file scenario ''/root/a.txt'' [0x6F, 0x6B] True)) ''/root/a.txt''
       = Inr (File [0x6F, 0x6B])"
proof -
  have h: "isfile scenario ''/root/a.txt''"
    by (simp add: fs_eval)
  have e: "encode (locale_encoding scenario) [0x6F, 0x6B] = Some [0x6F, 0x6B]"
    by (simp add: scenario_def encode_def utf8_enc_def)
  note g = write_to_file_guard [OF h, of "[0x6F, 0x6B]"]
  from g e obtain s' where s': "write_to_file scenario ''/root/a.txt'' [0x6F, 0x6B] True = (Inr (), s')"
    by auto
  with g e have "stat s' ''/root/a.txt'' = Inr (File [0x6F, 0x6B])"
    by auto
  with s' g h e show ?thesis
    by simp
qed

section \<open>Writing and reading back\<close>

text \<open>
  Claim C4, amended. After a \<^verbatim>\<open>write_to_file(p, data)\<close> that returned, \<^verbatim>\<open>read_file(p)\<close>
  returns \<open>data\<close> with every \<^verbatim>\<open>\r\n\<close> and every lone \<^verbatim>\<open>\r\<close> turned into \<^verbatim>\<open>\n\<close>; it
  returns exactly \<open>data\<close> when \<open>data\<close> has no carriage return.
\<close>

theorem write_read_round_trip:
  "write_to_file s p data overwrite = (Inr (), s') \<Longrightarrow>
     read_file s' p = Inr (universal_newlines data)
     \<and> (13 \<notin> set data \<longrightarrow> read_file s' p = Inr data)"
proof -
  assume "write_to_file s p data overwrite = (Inr (), s')"
  from write_to_file_content [OF this] obtain bs where
    "encode (locale_encoding s) data = Some bs" "stat s' p = Inr (File bs)"
    "locale_encoding s' = locale_encoding s"
    by blast
  then show ?thesis
    by (simp add: read_file_def open_read_def encode_decode universal_newlines_id)
qed

lemma write_cr: "write_to_file scenario ''/root/a.txt'' [13] True
  = (Inr (), scenario\<lparr>root := Dir [(''root'', Dir [(''a.txt'', File [13]),
                                 (''sub'', Dir [(''b.txt'', File [0x79, 0x6F])])]),
                  (''dest'', Dir [])]\<rparr>)"
  by (simp add: write_to_file_def open_w_def file_write_def encode_def utf8_enc_def fs_eval set_entry_def)

text \<open>
  The round trip as claimed fails on a carriage return, which every encoding has:
  the file holds the byte 13 and the read gives a line feed.
\<close>

theorem write_read_round_trip_counterexample:
  "fst (write_to_file scenario ''/root/a.txt'' [13] True) = Inr ()
   \<and> read_file (snd (write_to_file scenario ''/root/a.txt'' [13] True)) ''/root/a.txt'' = Inr [10]"
  unfolding write_cr
  by (simp add: read_file_def open_read_def decode_def is_cont_def fs_eval)

theorem write_read_round_trip_witness:
  "write_to_file scenario ''/root/a.txt'' [13] True
     = (Inr (), snd (write_to_file scenario ''/root/a.txt'' [13] True))
   \<and> read_file (snd (write_to_file scenario ''/root/a.txt'' [13] True)) ''/root/a.txt''
       = Inr (universal_newlines [13])"
proof -
  have h: "write_to_file scenario ''/root/a.txt'' [13] True
     = (Inr (), snd (write_to_file scenario ''/root/a.txt'' [13] True))"
    by (simp add: write_cr)
  from write_read_round_trip [OF h] h show ?thesis
    by simp
qed

section \<open>File type detection\<close>

text \<open>
  Claim C6. When \<^verbatim>\<open>import magic\<close> raises, \<^verbatim>\<open>get_file_type\<close> logs one error message and
  returns \<^verbatim>\<open>None\<close> without raising. When the import succeeds nothing is logged, the
  result is never \<^verbatim>\<open>None\<close>, and an exception of either \<^verbatim>\<open>magic.from_file\<close> call reaches
  the caller.
\<close>

theorem get_file_type_soft_fail:
  "get_file_type (Inl e) s fp = (Inr None, s\<lparr>log := log s @ [import_error_message e]\<rparr>)
   \<and> fst (get_file_type (Inr m) s fp) \<noteq> Inr None
   \<and> snd (get_file_type (Inr m) s fp) = s
   \<and> (\<forall>x. from_file m fp False = Inl x \<longrightarrow> fst (get_file_type (Inr m) s fp) = Inl x)
   \<and> (\<forall>i x. from_file m fp False = Inr i \<and> from_file m fp True = Inl x \<longrightarrow>
          fst (get_file_type (Inr m) s fp) = Inl x)
   \<and> (\<forall>i t. from_file m fp False = Inr i \<and> from_file m fp True = Inr t \<longrightarrow>
          fst (get_file_type (Inr m) s fp) = Inr (Some \<lparr>file_path = fp, info = i, type = t\<rparr>))"
  by (simp add: get_file_type_def split: sum.splits)

theorem get_file_type_soft_fail_witness:
  "from_file magic_stub ''/nowhere'' False = Inl (OSError ENOENT)
   \<and> fst (get_file_type (Inr magic_stub) scenario ''/nowhere'') = Inl (OSError ENOENT)
   \<and> from_file magic_stub ''/root/sub/b.txt'' False = Inr ''data''
   \<and> from_file magic_stub ''/root/sub/b.txt'' True = Inl (OSError ENOENT)
   \<and> fst (get_file_type (Inr magic_stub) scenario ''/root/sub/b.txt'') = Inl (OSError ENOENT)
   \<and> from_file magic_stub ''/root/a.txt'' False = Inr ''ASCII text''
   \<and> from_file magic_stub ''/root/a.txt'' True = Inr ''text/plain''
   \<and> fst (get_file_type (Inr magic_stub) scenario ''/root/a.txt'')
       = Inr (Some \<lparr>file_path = ''/root/a.txt'', info = ''ASCII text'', type = ''text/plain''\<rparr>)"
proof -
  have a: "from_file magic_stub ''/nowhere'' False = Inl (OSError ENOENT)"
    by (simp add: magic_stub_def)
  have b: "from_file magic_stub ''/root/sub/b.txt'' False = Inr ''data''"
    "from_file magic_stub ''/root/sub/b.txt'' True = Inl (OSError ENOENT)"
    by (simp_all add: magic_stub_def)
  have c: "from_file magic_stub ''/root/a.txt'' False = Inr ''ASCII text''"
    "from_file magic_stub ''/root/a.txt'' True = Inr ''text/plain''"
    by (simp_all add: magic_stub_def)
  from a b c
    get_file_type_soft_fail [of "''x''" scenario "''/nowhere''" magic_stub]
    get_file_type_soft_fail [of "''x''" scenario "''/root/sub/b.txt''" magic_stub]
    get_file_type_soft_fail [of "''x''" scenario "''/root/a.txt''" magic_stub]
  show ?thesis by simp
qed

section \<open>What the overwrite guard tests\<close>

lemma walk_comps_errno: "walk_comps r cur cs = Inl e \<Longrightarrow> e = ENOENT \<or> e = ENOTDIR"
  by (induction r cur cs rule: walk_comps.induct)
     (auto split: option.splits node.splits if_splits)

lemma resolve_errno: "resolve s p = Inl e \<Longrightarrow> e = ENOENT \<or> e = ENOTDIR"
  using walk_comps_errno by (auto simp: resolve_def split: if_splits)

lemma rename_errors: "rename s a b = (Inl e, s') \<Longrightarrow> \<not> is_FileExistsError e"
  using resolve_errno [of s a] resolve_errno [of s b]
  by (auto simp: rename_def split: sum.splits option.splits node.splits if_splits)

lemma move_to_errors: "move_to s a b c = (Inl e, s') \<Longrightarrow> \<not> is_FileExistsError e"
  using rename_errors [of s a c]
  by (auto simp: move_to_def split: prod.splits sum.splits node.splits if_splits)

lemma shutil_move_errors: "shutil_move s a b = (Inl e, s') \<Longrightarrow> \<not> is_FileExistsError e"
  using rename_errors [of s a b] move_to_errors [of s a b]
  by (auto simp: shutil_move_def Let_def split: prod.splits sum.splits if_splits)

lemma isdir_not_isfile: "isdir s t \<Longrightarrow> \<not> isfile s t"
  by (auto simp: isdir_def isfile_def split: sum.splits node.splits)

text \<open>
  Claim C10, amended. For a target that exists as a directory the guard of none of the
  four operations fires. \<^verbatim>\<open>create_file\<close> then fails in \<^verbatim>\<open>os.mknod\<close> with the OS's own
  \<^verbatim>\<open>FileExistsError\<close> (EEXIST), \<^verbatim>\<open>write_to_file\<close> with \<^verbatim>\<open>overwrite=False\<close> fails in
  \<^verbatim>\<open>open\<close> with \<^verbatim>\<open>IsADirectoryError\<close>, and no error of \<^verbatim>\<open>move_file\<close> or \<^verbatim>\<open>rename_file\<close>
  is a \<^verbatim>\<open>FileExistsError\<close>.
\<close>

theorem guard_tests_isfile_only:
  "isdir s t \<Longrightarrow>
     create_file s t = (Inl (OSError EEXIST), s)
     \<and> write_to_file s t data False = (Inl (OSError EISDIR), s)
     \<and> (\<forall>a e s'. move_file s a t = (Inl e, s') \<longrightarrow> \<not> is_FileExistsError e)
     \<and> (\<forall>fp new_name e s'. join (fst (split fp)) new_name = t
            \<and> rename_file s fp new_name = (Inl e, s') \<longrightarrow> \<not> is_FileExistsError e)"
proof -
  assume d: "isdir s t"
  then have nf: "\<not> isfile s t" by (rule isdir_not_isfile)
  from d obtain ap es where ap: "resolve s t = Inr ap" "lookup (root s) ap = Some (Dir es)"
    by (auto simp: isdir_def stat_def split: sum.splits option.splits node.splits)
  have 1: "create_file s t = (Inl (OSError EEXIST), s)"
    using nf ap by (simp add: create_file_def mknod_def)
  have 2: "write_to_file s t data False = (Inl (OSError EISDIR), s)"
    using nf ap by (simp add: write_to_file_def open_w_def)
  have 3: "\<not> is_FileExistsError e" if "move_file s a t = (Inl e, s')" for a e s'
    using that nf shutil_move_errors [of s a t]
    by (auto simp: move_file_def split: prod.splits sum.splits)
  have 4: "\<not> is_FileExistsError e"
    if "join (fst (split fp)) new_name = t" "rename_file s fp new_name = (Inl e, s')"
    for fp new_name e s'
    using that nf rename_errors [of s fp t]
    by (auto simp: rename_file_def Let_def split: prod.splits)
  from 1 2 3 4 show ?thesis by blast
qed

text \<open>
  As claimed it fails for \<^verbatim>\<open>create_file\<close>: on an existing directory the call does raise
  \<^verbatim>\<open>FileExistsError\<close>, from \<^verbatim>\<open>os.mknod\<close>.
\<close>

theorem guard_tests_isfile_only_counterexample:
  "isdir scenario ''/dest''
   \<and> create_file scenario ''/dest'' = (Inl (OSError EEXIST), scenario)
   \<and> is_FileExistsError (OSError EEXIST)"
  by (simp add: create_file_def mknod_def fs_eval)

theorem guard_tests_isfile_only_witness:
  "isdir scenario ''/dest''
   \<and> create_file scenario ''/dest'' = (Inl (OSError EEXIST), scenario)
   \<and> write_to_file scenario ''/dest'' [0x6F, 0x6B] False = (Inl (OSError EISDIR), scenario)
   \<and> move_file scenario ''/nowhere'' ''/dest'' = (Inl (OSError ENOENT), scenario)
   \<and> join (fst (split ''/root/a.txt'')) ''sub'' = ''/root/sub''
   \<and> isdir scenario ''/root/sub''
   \<and> rename_file scenario ''/root/a.txt'' ''sub'' = (Inl (OSError EISDIR), scenario)
   \<and> \<not> is_FileExistsError (OSError ENOENT) \<and> \<not> is_FileExistsError (OSError EISDIR)"
proof -
  have h: "isdir scenario ''/dest''"
    by (simp add: fs_eval)
  have h2: "isdir scenario ''/root/sub''"
    by (simp add: fs_eval)
  have m: "move_file scenario ''/nowhere'' ''/dest'' = (Inl (OSError ENOENT), scenario)"
    by (simp add: move_file_def shutil_move_def samefile_def move_to_def rename_def fs_eval)
  have j: "join (fst (split ''/root/a.txt'')) ''sub'' = ''/root/sub''"
    by (simp add: fs_eval)
  have r: "rename_file scenario ''/root/a.txt'' ''sub'' = (Inl (OSError EISDIR), scenario)"
    by (simp add: rename_file_def rename_def fs_eval)
  from guard_tests_isfile_only [OF h, of "[0x6F, 0x6B]"] guard_tests_isfile_only [OF h2, of "[]"]
    h h2 m j r
  show ?thesis
    by simp
qed

section \<open>Joined paths and directory listings\<close>

lemma split_sep_hd_tl: "split_sep p = hd (split_sep p) # tl (split_sep p)"
  using split_sep_not_Nil [of p] by simp

lemma split_sep_append:
  "split_sep (a @ sep # b) = split_sep a @ split_sep b"
proof (induction a)
  case Nil
  then show ?case by simp
next
  case (Cons c a)
  then show ?case
    using split_sep_not_Nil [of a] by (cases "split_sep a") auto
qed

lemma split_sep_name: "sep \<notin> set n \<Longrightarrow> split_sep n = [n]"
  by (induction n) auto

lemma walk_comps_append:
  "walk_comps r cur (xs @ ys)
     = (case walk_comps r cur xs of Inl e \<Rightarrow> Inl e | Inr c \<Rightarrow> walk_comps r c ys)"
  by (induction r cur xs rule: walk_comps.induct)
     (auto split: option.splits node.splits)

lemma walk_comps_name:
  "is_dir_at r ap \<Longrightarrow> wfname n \<Longrightarrow> walk_comps r ap [n] = Inr (ap @ [n])"
  by (auto simp: is_dir_at_def wfname_def split: option.splits node.splits)

lemma walk_comps_empty:
  "walk_comps r c [[]] = Inr ap \<Longrightarrow> c = ap"
  by (auto split: option.splits node.splits)

text \<open>Joining a resolved directory with a name resolves to the entry of that name.\<close>

lemma resolve_join:
  assumes "resolve s p = Inr ap" "is_dir_at (root s) ap" "wfname n"
  shows "resolve s (join p n) = Inr (ap @ [n])"
proof -
  from assms(1) have ne: "p \<noteq> []"
    by (auto simp: resolve_def)
  from assms(3) have n: "n \<noteq> []" "hd n \<noteq> sep" "sep \<notin> set n"
    by (auto simp: wfname_def) (cases n, auto)
  let ?start = "if hd p = sep then [] else cwd s"
  from assms(1) ne have w: "walk_comps (root s) ?start (split_sep p) = Inr ap"
    by (simp add: resolve_def)
  show ?thesis
  proof (cases "last p = sep")
    case False
    with ne n have j: "join p n = p @ sep # n"
      by (simp add: join_def)
    have "split_sep (p @ sep # n) = split_sep p @ [n]"
      using n(3) by (simp add: split_sep_append split_sep_name)
    with w assms(2,3) j ne show ?thesis
      by (simp add: resolve_def walk_comps_append walk_comps_name del: walk_comps.simps)
  next
    case True
    with ne obtain p' where p': "p = p' @ [sep]"
      by (metis append_butlast_last_id)
    with ne n True have j: "join p n = p' @ sep # n"
      by (simp add: join_def)
    from p' have sp: "split_sep p = split_sep p' @ [[]]"
      using split_sep_append [of p' "[]"] by simp
    with w obtain c where c: "walk_comps (root s) ?start (split_sep p') = Inr c"
      "walk_comps (root s) c [[]] = Inr ap"
      by (auto simp: walk_comps_append split: sum.splits)
    from c(2) have "c = ap" by (rule walk_comps_empty)
    moreover have "split_sep (p' @ sep # n) = split_sep p' @ [n]"
      using n(3) by (simp add: split_sep_append split_sep_name)
    moreover have "hd (p' @ sep # n) = hd p"
      using p' by (cases p') auto
    ultimately show ?thesis
      using c(1) assms(2,3) j
      by (simp add: resolve_def walk_comps_append walk_comps_name del: walk_comps.simps)
  qed
qed

lemma basename_join:
  assumes "wfname n"
  shows "basename (join p n) = n"
proof -
  from assms have n: "n \<noteq> []" "hd n \<noteq> sep" "sep \<notin> set n"
    by (auto simp: wfname_def) (cases n, auto)
  have all: "\<forall>c \<in> set (rev n). c \<noteq> sep"
    using n(3) by (metis set_rev)
  have "takeWhile (\<lambda>c. c \<noteq> sep) (rev n @ sep # rev x) = rev n" for x
    using all by (subst takeWhile_append2) simp_all
  then have a: "basename (x @ sep # n) = n" for x
    by (simp only: basename_def rev_append rev.simps append.simps append_assoc rev_rev_ident)
  have "takeWhile (\<lambda>c. c \<noteq> sep) (rev n) = rev n"
    using all by (simp only: takeWhile_eq_all_conv)
  then have b: "basename n = n"
    by (simp only: basename_def rev_rev_ident)
  show ?thesis
  proof (cases "p = []")
    case True
    with b show ?thesis by (simp add: join_def)
  next
    case False
    show ?thesis
    proof (cases "last p = sep")
      case True
      with False obtain p' where "p = p' @ [sep]"
        by (metis append_butlast_last_id)
      with n True a [of p'] show ?thesis
        by (simp add: join_def)
    next
      case f: False
      with False n a [of p] show ?thesis
        by (simp add: join_def)
    qed
  qed
qed

lemma wf_lookup: "wf r \<Longrightarrow> lookup r ap = Some n \<Longrightarrow> wf n"
proof (induction ap arbitrary: r)
  case Nil
  then show ?case by simp
next
  case (Cons c cs)
  then obtain es where r: "r = Dir es" by (cases r) auto
  with Cons.prems obtain ch where ch: "map_of es c = Some ch" "lookup ch cs = Some n"
    by (auto split: option.splits)
  then have "(c, ch) \<in> set es" by (simp add: map_of_SomeD)
  with Cons.prems(1) r have "wf ch" by auto
  with Cons.IH ch show ?case by blast
qed

lemma lookup_child:
  assumes "lookup r ap = Some (Dir es)" "distinct (map fst es)" "e \<in> set es"
  shows "lookup r (ap @ [fst e]) = Some (snd e)"
proof -
  from assms(2,3) have "map_of es (fst e) = Some (snd e)"
    by (cases e) simp
  with assms(1) show ?thesis by (simp add: lookup_append)
qed

text \<open>What the OS says about the joined path of a directory entry.\<close>

lemma stat_join:
  assumes "wf (root s)" "resolve s p = Inr ap" "lookup (root s) ap = Some (Dir es)" "e \<in> set es"
  shows "resolve s (join p (fst e)) = Inr (ap @ [fst e])"
    and "stat s (join p (fst e)) = Inr (snd e)"
    and "isdir s (join p (fst e)) = is_Dir (snd e)"
    and "isfile s (join p (fst e)) = is_File (snd e)"
proof -
  from wf_lookup [OF assms(1,3)] assms(4) have w: "distinct (map fst es)" "wfname (fst e)"
    by auto
  from assms(3) have d: "is_dir_at (root s) ap"
    by (simp add: is_dir_at_def)
  show r: "resolve s (join p (fst e)) = Inr (ap @ [fst e])"
    by (rule resolve_join [OF assms(2) d w(2)])
  with lookup_child [OF assms(3) w(1) assms(4)] show st: "stat s (join p (fst e)) = Inr (snd e)"
    by (simp add: stat_def)
  from st show "isdir s (join p (fst e)) = is_Dir (snd e)"
    by (cases "snd e") (simp_all add: isdir_def)
  from st show "isfile s (join p (fst e)) = is_File (snd e)"
    by (cases "snd e") (simp_all add: isfile_def)
qed

lemma stat_dir:
  assumes "stat s p = Inr (Dir es)"
  obtains ap where "resolve s p = Inr ap" "lookup (root s) ap = Some (Dir es)"
  using assms by (auto simp: stat_def split: sum.splits option.splits)

lemma last_join_sep: "wfname n \<Longrightarrow> join p n \<noteq> [] \<and> last (join p n) \<noteq> sep"
proof -
  assume "wfname n"
  then have n: "n \<noteq> []" "sep \<notin> set n"
    by (auto simp: wfname_def)
  with last_in_set [OF n(1)] have "n \<noteq> []" "last n \<noteq> sep"
    by metis+
  then show ?thesis by (simp add: join_def)
qed

text \<open>
  Claim C8. For a directory \<open>folder_path\<close> of a well-formed tree,
  \<^verbatim>\<open>list_dir_folders\<close> returns exactly the immediate children that are directories, in
  listing order, as bare names or, with \<^verbatim>\<open>full_path=True\<close>, as joined paths that all end
  in the separator; \<^verbatim>\<open>list_dir_files\<close> returns exactly the children that are regular
  files, and none of its full paths ends in the separator.
\<close>

theorem list_dir_folders_exact:
  "wf (root s) \<Longrightarrow> stat s folder_path = Inr (Dir es) \<Longrightarrow>
     list_dir_folders s folder_path full_path
       = Inr (map (\<lambda>e. if full_path then join folder_path (fst e) @ ''/'' else fst e)
                (filter (\<lambda>e. is_Dir (snd e)) es))
     \<and> (\<forall>e \<in> set es. stat s (join folder_path (fst e)) = Inr (snd e))
     \<and> (\<forall>rs. list_dir_folders s folder_path True = Inr rs \<longrightarrow>
            (\<forall>r \<in> set rs. r \<noteq> [] \<and> last r = CHR ''/''))
     \<and> list_dir_files s folder_path full_path
         = Inr (map (\<lambda>e. if full_path then join folder_path (fst e) else fst e)
                  (filter (\<lambda>e. is_File (snd e)) es))
     \<and> (\<forall>rs. list_dir_files s folder_path True = Inr rs \<longrightarrow>
            (\<forall>r \<in> set rs. r \<noteq> [] \<and> last r \<noteq> CHR ''/''))"
proof -
  assume w: "wf (root s)" and st: "stat s folder_path = Inr (Dir es)"
  from st obtain ap where ap: "resolve s folder_path = Inr ap" "lookup (root s) ap = Some (Dir es)"
    by (rule stat_dir)
  note sj = stat_join [OF w ap]
  have names: "\<And>e. e \<in> set es \<Longrightarrow> wfname (fst e)"
    using wf_lookup [OF w ap(2)] by auto
  have fd: "filter (\<lambda>n. isdir s (join folder_path n)) (map fst es)
              = map fst (filter (\<lambda>e. is_Dir (snd e)) es)"
    using sj(3) by (simp add: filter_map o_def cong: filter_cong)
  have ff: "filter (\<lambda>n. isfile s (join folder_path n)) (map fst es)
              = map fst (filter (\<lambda>e. is_File (snd e)) es)"
    using sj(4) by (simp add: filter_map o_def cong: filter_cong)
  have 1: "list_dir_folders s folder_path fp
       = Inr (map (\<lambda>e. if fp then join folder_path (fst e) @ ''/'' else fst e)
                (filter (\<lambda>e. is_Dir (snd e)) es))" for fp
    using st fd by (simp add: list_dir_folders_def listdir_def o_def)
  have 2: "list_dir_files s folder_path fp
         = Inr (map (\<lambda>e. if fp then join folder_path (fst e) else fst e)
                  (filter (\<lambda>e. is_File (snd e)) es))" for fp
    using st ff by (simp add: list_dir_files_def listdir_def o_def)
  have 3: "\<forall>r \<in> set rs. r \<noteq> [] \<and> last r = CHR ''/''" if "list_dir_folders s folder_path True = Inr rs" for rs
    using that 1 [of True] by auto
  have 4: "\<forall>r \<in> set rs. r \<noteq> [] \<and> last r \<noteq> CHR ''/''" if "list_dir_files s folder_path True = Inr rs" for rs
  proof -
    from that 2 [of True] have "rs = map (\<lambda>e. join folder_path (fst e)) (filter (\<lambda>e. is_File (snd e)) es)"
      by simp
    then show ?thesis
      using last_join_sep [OF names, of _ folder_path] by (auto simp: sep_def)
  qed
  from 1 2 3 4 sj(2) show ?thesis by blast
qed


theorem list_dir_folders_exact_witness:
  "wf (root scenario)
   \<and> stat scenario ''/root''
       = Inr (Dir [(''a.txt'', File [0x68, 0x69]), (''sub'', Dir [(''b.txt'', File [0x79, 0x6F])])])
   \<and> list_dir_folders scenario ''/root'' True = Inr [''/root/sub/'']
   \<and> list_dir_folders scenario ''/root'' False = Inr [''sub'']
   \<and> list_dir_files scenario ''/root'' True = Inr [''/root/a.txt'']"
proof -
  have w: "wf (root scenario)"
    by (simp add: scenario_def wfname_def sep_def)
  have st: "stat scenario ''/root''
       = Inr (Dir [(''a.txt'', File [0x68, 0x69]), (''sub'', Dir [(''b.txt'', File [0x79, 0x6F])])])"
    by (simp add: fs_eval)
  from list_dir_folders_exact [OF w st, of True] list_dir_folders_exact [OF w st, of False] w st
  show ?thesis
    by (simp add: join_def sep_def)
qed

end
